theory Spec2Isabelle
  imports Complex_Main
begin

section \<open>Data model of \<^verbatim>\<open>src/main.py\<close>\<close>

text \<open>
  The bot keeps one state document, a Python dict with the three keys
  \<^verbatim>\<open>last_notification_id\<close>, \<^verbatim>\<open>last_boost_per_user\<close> and \<^verbatim>\<open>boosted_status_ids\<close>
  (the specification calls them \<open>last_event_id\<close>, \<open>last_action_per_actor\<close> and
  \<open>acted_item_ids\<close>). The two tables are dicts from strings to the float that
  \<^verbatim>\<open>time.time()\<close> returned; they are maps to \<open>real\<close> here, so the rounding of float
  subtraction is idealised away. Python's unbounded \<^verbatim>\<open>int\<close> is \<open>int\<close>.

  The cursor field holds \<^verbatim>\<open>None\<close>, the string \<^verbatim>\<open>str(max_id)\<close> written by the startup
  skip, or the \<^verbatim>\<open>item["id"]\<close> of the last notification seen. Identifiers of
  notifications and statuses are the integers that \<^verbatim>\<open>int(item["id"])\<close> reads.
\<close>

datatype jid = JInt int | JStr string

record state =
  last_notification_id :: "jid option"
  last_boost_per_user :: "string \<rightharpoonup> real"
  boosted_status_ids :: "string \<rightharpoonup> real"

text \<open>
  A notification as the loop reads it: \<^verbatim>\<open>item["id"]\<close>, \<^verbatim>\<open>item["type"]\<close>,
  \<^verbatim>\<open>item.get("status")\<close>; of a status \<^verbatim>\<open>status["id"]\<close> and
  \<^verbatim>\<open>status.get("account", {})\<close>; of an account \<^verbatim>\<open>account.get("acct")\<close>.
\<close>

record account =
  a_acct :: "string option"

record status =
  s_id :: int
  s_account :: "account option"

record notification =
  n_id :: int
  n_type :: string
  n_status :: "status option"

text \<open>
  The faults of the Mastodon client that the loop names in its \<^verbatim>\<open>except\<close> clauses, and
  the exception \<^verbatim>\<open>json.load\<close> raises on a text that is not JSON (the specification's
  \<open>CorruptStateError\<close>).
\<close>

datatype mastodon_fault = MastodonNetworkError | MastodonAPIError

datatype load_error = JSONDecodeError

section \<open>Python's \<^verbatim>\<open>str\<close> and \<^verbatim>\<open>int\<close> on identifiers\<close>

definition digit_char :: "nat \<Rightarrow> char" where
  "digit_char d = ''0123456789'' ! d"

fun digits :: "nat \<Rightarrow> string" where
  "digits n = (if n < 10 then [digit_char n] else digits (n div 10) @ [digit_char (n mod 10)])"

declare digits.simps [simp del]

text \<open>\<^verbatim>\<open>str(n)\<close> of an integer: its decimal numeral, with a minus sign when negative.\<close>

definition py_str :: "int \<Rightarrow> string" where
  "py_str i = (if i < 0 then CHR ''-'' # digits (nat (- i)) else digits (nat i))"

text \<open>The value of a decimal digit, from its character code (48 is \<^verbatim>\<open>'0'\<close>).\<close>

definition digit_val :: "char \<Rightarrow> nat option" where
  "digit_val c =
     (let code = of_char c :: nat
      in if 48 \<le> code \<and> code \<le> 57 then Some (code - 48) else None)"

fun nat_of_digits :: "nat \<Rightarrow> string \<Rightarrow> nat option" where
  "nat_of_digits acc [] = Some acc"
| "nat_of_digits acc (c # cs) =
     (case digit_val c of None \<Rightarrow> None | Some d \<Rightarrow> nat_of_digits (10 * acc + d) cs)"

text \<open>
  The number an identifier stands for, as \<^verbatim>\<open>int(...)\<close> reads it: an integer is itself,
  a string is read as a decimal numeral with an optional minus sign, and anything
  else has no value (\<^verbatim>\<open>int\<close> raises \<^verbatim>\<open>ValueError\<close>).
\<close>

definition int_of_string :: "string \<Rightarrow> int option" where
  "int_of_string s =
     (case s of
        [] \<Rightarrow> None
      | c # cs \<Rightarrow>
          (if c = CHR ''-''
           then (if cs = [] then None else map_option (\<lambda>n. - int n) (nat_of_digits 0 cs))
           else map_option int (nat_of_digits 0 s)))"

fun py_int :: "jid \<Rightarrow> int option" where
  "py_int (JInt n) = Some n"
| "py_int (JStr s) = int_of_string s"

section \<open>The retention pruner\<close>

text \<open>
  \<^verbatim>\<open>{k: ts for k, ts in table.items() if now - ts <= expire}\<close>: the entries of a
  dict that pass the test.
\<close>

definition keep_recent :: "real \<Rightarrow> real \<Rightarrow> ('k \<rightharpoonup> real) \<Rightarrow> ('k \<rightharpoonup> real)" where
  "keep_recent now expire table =
     (\<lambda>k. case table k of
             None \<Rightarrow> None
           | Some ts \<Rightarrow> if now - ts \<le> expire then Some ts else None)"

definition prune_state :: "'a state_scheme \<Rightarrow> real \<Rightarrow> int \<Rightarrow> 'a state_scheme" where
  "prune_state st now min_interval =
     (let user_expire = min_interval * 2;
          status_expire = 24 * 3600 :: int
      in st\<lparr>last_boost_per_user := keep_recent now (of_int user_expire) (last_boost_per_user st),
            boosted_status_ids := keep_recent now (of_int status_expire) (boosted_status_ids st)\<rparr>)"

section \<open>The durable state store\<close>

text \<open>
  The file system is a map from paths to file contents. \<^verbatim>\<open>json.load\<close> and
  \<^verbatim>\<open>json.dump\<close> belong to the standard library and are parameters: the decoder
  returns \<open>None\<close> where \<^verbatim>\<open>json.load\<close> raises.
\<close>

type_synonym files = "string \<rightharpoonup> string"

definition fresh_state :: state where
  "fresh_state =
     \<lparr>last_notification_id = None,
      last_boost_per_user = Map.empty,
      boosted_status_ids = Map.empty\<rparr>"

definition load_state :: "(string \<Rightarrow> state option) \<Rightarrow> files \<Rightarrow> string \<Rightarrow> load_error + state" where
  "load_state json_load fs path =
     (case fs path of
        None \<Rightarrow> Inr fresh_state
      | Some content \<Rightarrow>
          (case json_load content of
             None \<Rightarrow> Inl JSONDecodeError
           | Some doc \<Rightarrow> Inr doc))"

text \<open>\<^verbatim>\<open>path.with_suffix(path.suffix + ".tmp")\<close>: the path with \<^verbatim>\<open>.tmp\<close> appended.\<close>

definition tmp_path :: "string \<Rightarrow> string" where
  "tmp_path path = path @ ''.tmp''"

text \<open>
  \<^verbatim>\<open>save_state\<close> as the file operations it issues, in order: opening the temporary
  file for writing creates or truncates it, \<^verbatim>\<open>json.dump\<close> appends the serialised
  document (character by character here, the finest grain a crash can cut it at),
  and \<^verbatim>\<open>tmp_path.replace(path)\<close> renames the temporary file over the target in one
  step.
\<close>

datatype file_op = OpenW string | WriteChar string char | Replace string string

fun file_step :: "file_op \<Rightarrow> files \<Rightarrow> files" where
  "file_step (OpenW p) fs = fs(p \<mapsto> [])"
| "file_step (WriteChar p c) fs =
     (case fs p of None \<Rightarrow> fs | Some content \<Rightarrow> fs(p \<mapsto> content @ [c]))"
| "file_step (Replace src dst) fs =
     (case fs src of None \<Rightarrow> fs | Some content \<Rightarrow> (fs(src := None))(dst \<mapsto> content))"

definition run_ops :: "file_op list \<Rightarrow> files \<Rightarrow> files" where
  "run_ops ops fs = fold file_step ops fs"

definition save_ops :: "('a state_scheme \<Rightarrow> string) \<Rightarrow> string \<Rightarrow> 'a state_scheme \<Rightarrow> file_op list" where
  "save_ops json_dump path st =
     (let tmp = tmp_path path
      in OpenW tmp # map (WriteChar tmp) (json_dump st) @ [Replace tmp path])"

definition save_state :: "('a state_scheme \<Rightarrow> string) \<Rightarrow> files \<Rightarrow> string \<Rightarrow> 'a state_scheme \<Rightarrow> files" where
  "save_state json_dump fs path st = run_ops (save_ops json_dump path st) fs"

section \<open>The body of the notification loop\<close>

text \<open>
  One pass of the \<^verbatim>\<open>for item in sorted(...)\<close> body. The result names the statement
  at which the pass ended: one of the six \<^verbatim>\<open>continue\<close> statements or the end of the
  body after a successful boost. \<open>now\<close> is what \<^verbatim>\<open>time.time()\<close> returns when the pass
  reads it, \<open>reblog\<close> is what \<^verbatim>\<open>mastodon.status_reblog\<close> does when the pass calls it:
  \<open>None\<close> for a normal return, a fault for one of the two caught exceptions.
  \<^verbatim>\<open>if not status\<close> holds for a missing status, \<^verbatim>\<open>if not acct\<close> for a missing and for
  an empty account name. The log calls are left out.
\<close>

datatype branch =
    ContinueType
  | ContinueNoStatus
  | ContinueAcct
  | ContinueRateLimit
  | ContinueDuplicate
  | ContinueBoostFailed
  | Boosted

definition process_item ::
  "string \<Rightarrow> int \<Rightarrow> real \<Rightarrow> mastodon_fault option \<Rightarrow> state \<Rightarrow> notification \<Rightarrow> state \<times> branch" where
  "process_item bot_acct min_interval now reblog st0 item =
     (let st = st0\<lparr>last_notification_id := Some (JInt (n_id item))\<rparr>
      in if n_type item \<noteq> ''mention'' then (st, ContinueType)
         else case n_status item of
           None \<Rightarrow> (st, ContinueNoStatus)
         | Some status \<Rightarrow>
             (case (case s_account status of None \<Rightarrow> None | Some account \<Rightarrow> a_acct account) of
                None \<Rightarrow> (st, ContinueAcct)
              | Some acct \<Rightarrow>
                  if acct = [] \<or> acct = bot_acct then (st, ContinueAcct)
                  else
                    let last_boost = (case last_boost_per_user st acct of None \<Rightarrow> 0 | Some ts \<Rightarrow> ts)
                    in if now - last_boost < of_int min_interval then (st, ContinueRateLimit)
                       else
                         let status_id = py_str (s_id status)
                         in if status_id \<in> dom (boosted_status_ids st) then (st, ContinueDuplicate)
                            else
                              (case reblog of
                                 Some exc \<Rightarrow> (st, ContinueBoostFailed)
                               | None \<Rightarrow>
                                   (st\<lparr>last_boost_per_user := (last_boost_per_user st)(acct \<mapsto> now),
                                       boosted_status_ids := (boosted_status_ids st)(status_id \<mapsto> now)\<rparr>,
                                    Boosted))))"

text \<open>\<^verbatim>\<open>mastodon.status_reblog\<close> is called in exactly the passes that end in these two ways.\<close>

definition reblog_called :: "branch \<Rightarrow> bool" where
  "reblog_called b = (b = ContinueBoostFailed \<or> b = Boosted)"

text \<open>
  The \<^verbatim>\<open>for\<close> loop over the sorted batch. \<open>obs i\<close> is what the world answers during
  the \<open>i\<close>-th pass: the clock reading and the outcome of the reblog call. The loop
  returns the final state and, pass by pass, how each pass ended.
\<close>

fun process_items ::
  "string \<Rightarrow> int \<Rightarrow> (nat \<Rightarrow> real \<times> mastodon_fault option) \<Rightarrow> nat \<Rightarrow> state \<Rightarrow> notification list
     \<Rightarrow> state \<times> branch list" where
  "process_items bot_acct min_interval obs i st [] = (st, [])"
| "process_items bot_acct min_interval obs i st (item # items) =
     (case process_item bot_acct min_interval (fst (obs i)) (snd (obs i)) st item of
        (st', b) \<Rightarrow>
          (case process_items bot_acct min_interval obs (Suc i) st' items of
             (st'', bs) \<Rightarrow> (st'', b # bs)))"

section \<open>The reaction policy as the specification words it\<close>

text \<open>
  The specification's \<open>should_act(event, doc, self_identity, now, min_interval)\<close>,
  written from its numbered evaluation order and not from the code. The originating
  actor of an event is the \<open>acct\<close> of the account of its referenced item; an empty
  name counts as no actor.
\<close>

datatype decision =
    Act
  | SkipType
  | SkipSelf
  | SkipRateLimited
  | SkipDuplicate
  | SkipNoReferencedItem

definition actor_of :: "status \<Rightarrow> string option" where
  "actor_of item =
     (case s_account item of
        None \<Rightarrow> None
      | Some a \<Rightarrow> (case a_acct a of None \<Rightarrow> None | Some name \<Rightarrow> if name = [] then None else Some name))"

definition should_act :: "notification \<Rightarrow> state \<Rightarrow> string \<Rightarrow> real \<Rightarrow> int \<Rightarrow> decision" where
  "should_act event doc self_identity now min_interval =
     (if n_type event \<noteq> ''mention'' then SkipType
      else case n_status event of
        None \<Rightarrow> SkipNoReferencedItem
      | Some item \<Rightarrow>
          (case actor_of item of
             None \<Rightarrow> SkipNoReferencedItem
           | Some actor \<Rightarrow>
               if actor = self_identity then SkipSelf
               else if \<not> of_int min_interval
                         \<le> now - (case last_boost_per_user doc actor of None \<Rightarrow> 0 | Some ts \<Rightarrow> ts)
               then SkipRateLimited
               else if py_str (s_id item) \<in> dom (boosted_status_ids doc) then SkipDuplicate
               else Act))"

text \<open>
  The decision a pass of the loop body stands for. The body leaves through one
  \<^verbatim>\<open>continue\<close> both when the actor is missing and when the actor is the bot itself.
\<close>

definition decision_of :: "notification \<Rightarrow> branch \<Rightarrow> decision" where
  "decision_of event b =
     (case b of
        ContinueType \<Rightarrow> SkipType
      | ContinueNoStatus \<Rightarrow> SkipNoReferencedItem
      | ContinueAcct \<Rightarrow>
          (case n_status event of
             None \<Rightarrow> SkipNoReferencedItem
           | Some item \<Rightarrow> if actor_of item = None then SkipNoReferencedItem else SkipSelf)
      | ContinueRateLimit \<Rightarrow> SkipRateLimited
      | ContinueDuplicate \<Rightarrow> SkipDuplicate
      | ContinueBoostFailed \<Rightarrow> Act
      | Boosted \<Rightarrow> Act)"

section \<open>One iteration of the poll loop\<close>

record config =
  bot_acct :: string
  min_interval :: int
  state_file :: string
  startup_skip_existing :: bool

text \<open>
  What the world answers during one iteration of \<^verbatim>\<open>while True\<close>: the clock at the
  top of the iteration, the result of \<^verbatim>\<open>mastodon.notifications\<close> for a given
  \<^verbatim>\<open>since_id\<close> (\<open>None\<close> when the argument is left out), and the observations of the
  passes over the batch.
\<close>

record world =
  clock :: real
  notifications :: "jid option \<Rightarrow> mastodon_fault + notification list"
  observe :: "nat \<Rightarrow> real \<times> mastodon_fault option"

text \<open>\<^verbatim>\<open>max(int(item["id"]) for item in notifications)\<close> on a non-empty list.\<close>

definition max_id_of :: "notification \<Rightarrow> notification list \<Rightarrow> int" where
  "max_id_of n ns = fold max (map n_id ns) (n_id n)"

text \<open>
  The iteration takes the state in memory and the files, and either ends at
  \<^verbatim>\<open>time.sleep(poll_interval)\<close> with the new state, the new files and the outcomes
  of the passes it made (\<open>Inr\<close>), or an exception leaves \<^verbatim>\<open>main\<close> (\<open>Inl\<close>). The
  startup call of \<^verbatim>\<open>mastodon.notifications()\<close> stands outside any \<^verbatim>\<open>try\<close>.
\<close>

definition main_iteration ::
  "(state \<Rightarrow> string) \<Rightarrow> config \<Rightarrow> world \<Rightarrow> state \<times> files
     \<Rightarrow> mastodon_fault + (state \<times> files \<times> branch list)" where
  "main_iteration json_dump cfg w sf =
     (case sf of (st0, fs) \<Rightarrow>
        let now = clock w;
            st = prune_state st0 now (min_interval cfg)
        in if last_notification_id st = None \<and> startup_skip_existing cfg
           then
             (case notifications w None of
                Inl exc \<Rightarrow> Inl exc
              | Inr [] \<Rightarrow> Inr (st, fs, [])
              | Inr (n # ns) \<Rightarrow>
                  let max_id = max_id_of n ns;
                      st' = st\<lparr>last_notification_id := Some (JStr (py_str max_id))\<rparr>
                  in Inr (st', save_state json_dump fs (state_file cfg) st', []))
           else
             (case notifications w (last_notification_id st) of
                Inl exc \<Rightarrow> Inr (st, fs, [])
              | Inr ns \<Rightarrow>
                  if ns \<noteq> []
                  then
                    (case process_items (bot_acct cfg) (min_interval cfg) (observe w) 0 st
                            (sort_key n_id ns) of
                       (st', bs) \<Rightarrow> Inr (st', save_state json_dump fs (state_file cfg) st', bs))
                  else Inr (st, fs, [])))"

section \<open>Concrete worlds for the examples\<close>

text \<open>
  A serialiser standing for \<^verbatim>\<open>json.dump\<close>, a Mastodon client whose every fetch raises
  \<^verbatim>\<open>MastodonNetworkError\<close>, passes in which the clock reads 1700000000 and the
  reblog call returns normally, an empty file system, a state whose one rate-limit
  entry is long expired at that time, and the default configuration.
\<close>

definition dump_cursor :: "state \<Rightarrow> string" where
  "dump_cursor st = (case last_notification_id st of None \<Rightarrow> ''null'' | Some i \<Rightarrow> ''id'')"

definition fetch_fails :: "jid option \<Rightarrow> mastodon_fault + notification list" where
  "fetch_fails since_id = Inl MastodonNetworkError"

definition calm_passes :: "nat \<Rightarrow> real \<times> mastodon_fault option" where
  "calm_passes k = (1700000000, None)"

definition no_files :: files where
  "no_files = Map.empty"

definition stale_state :: state where
  "stale_state =
     \<lparr>last_notification_id = Some (JInt 9),
      last_boost_per_user = [''alice'' \<mapsto> 1000],
      boosted_status_ids = Map.empty\<rparr>"

definition bot_config :: config where
  "bot_config =
     \<lparr>bot_acct = ''bot'', min_interval = 3600, state_file = ''state.json'',
      startup_skip_existing = True\<rparr>"

definition offline_world :: world where
  "offline_world = \<lparr>clock = 1700000000, notifications = fetch_fails, observe = calm_passes\<rparr>"

text \<open>
  A Mastodon client that answers every fetch, whatever \<^verbatim>\<open>since_id\<close> it is given, with the
  one notification of identifier 2.
\<close>

definition fetch_old :: "jid option \<Rightarrow> mastodon_fault + notification list" where
  "fetch_old since_id = Inr [\<lparr>n_id = 2, n_type = ''follow'', n_status = None\<rparr>]"

definition replay_world :: world where
  "replay_world = \<lparr>clock = 1700000000, notifications = fetch_old, observe = calm_passes\<rparr>"

section \<open>Properties of the retention pruner\<close>

lemma keep_recent_Some_iff:
  "keep_recent now expire table k = Some ts \<longleftrightarrow> table k = Some ts \<and> \<not> ts < now - expire"
  by (auto simp: keep_recent_def split: option.splits)

lemma keep_recent_None_iff:
  "keep_recent now expire table k = None \<longleftrightarrow> (\<forall>ts. table k = Some ts \<longrightarrow> ts < now - expire)"
  by (auto simp: keep_recent_def split: option.splits)

text \<open>
  Claim C6. After \<open>prune_state st now mi\<close> the table \<open>last_boost_per_user\<close> holds
  exactly the entries of before whose timestamp is not older than \<open>2 * mi\<close> seconds
  before \<open>now\<close>, and \<open>boosted_status_ids\<close> exactly those not older than 86400 seconds
  before \<open>now\<close>: an entry stamped \<open>now - 25h\<close> is removed, one stamped \<open>now - 23h\<close> is
  retained.
\<close>

theorem prune_state_exact:
  "(last_boost_per_user (prune_state st now mi) k = Some ts
      \<longleftrightarrow> last_boost_per_user st k = Some ts \<and> \<not> ts < now - 2 * of_int mi)
   \<and> (boosted_status_ids (prune_state st now mi) k = Some ts
      \<longleftrightarrow> boosted_status_ids st k = Some ts \<and> \<not> ts < now - 86400)
   \<and> (boosted_status_ids st k = Some (now - 25 * 3600)
      \<longrightarrow> boosted_status_ids (prune_state st now mi) k = None)
   \<and> (boosted_status_ids st k = Some (now - 23 * 3600)
      \<longrightarrow> boosted_status_ids (prune_state st now mi) k = Some (now - 23 * 3600))"
  by (simp add: prune_state_def Let_def keep_recent_Some_iff keep_recent_None_iff mult.commute)

theorem prune_state_exact_witness:
  "boosted_status_ids
     (prune_state
        \<lparr>last_notification_id = None, last_boost_per_user = Map.empty,
         boosted_status_ids = [''7'' \<mapsto> 100000 - 25 * 3600, ''8'' \<mapsto> 100000 - 23 * 3600]\<rparr>
        100000 3600) ''7'' = None
   \<and> boosted_status_ids
     (prune_state
        \<lparr>last_notification_id = None, last_boost_per_user = Map.empty,
         boosted_status_ids = [''7'' \<mapsto> 100000 - 25 * 3600, ''8'' \<mapsto> 100000 - 23 * 3600]\<rparr>
        100000 3600) ''8'' = Some (100000 - 23 * 3600)"
  using
    prune_state_exact [of "\<lparr>last_notification_id = None, last_boost_per_user = Map.empty,
         boosted_status_ids = [''7'' \<mapsto> 100000 - 25 * 3600, ''8'' \<mapsto> 100000 - 23 * 3600]\<rparr>"
       100000 3600 "''7''" 0]
    prune_state_exact [of "\<lparr>last_notification_id = None, last_boost_per_user = Map.empty,
         boosted_status_ids = [''7'' \<mapsto> 100000 - 25 * 3600, ''8'' \<mapsto> 100000 - 23 * 3600]\<rparr>"
       100000 3600 "''8''" 0]
  by simp

text \<open>
  Claim C10. \<open>prune_state\<close> leaves the cursor \<open>last_notification_id\<close> as it was, and
  every field of the document other than the two tables with it.
\<close>

theorem prune_state_frame:
  "last_notification_id (prune_state st now mi) = last_notification_id st
   \<and> state.more (prune_state st now mi) = state.more st"
  by (simp add: prune_state_def Let_def)

section \<open>Properties of the durable state store\<close>

text \<open>
  Claim C9. \<open>load_state\<close> returns a fresh document, with a null cursor and two empty
  tables, when the state file does not exist; when the file exists and \<^verbatim>\<open>json.load\<close>
  cannot parse it, \<open>load_state\<close> fails with the decoder's exception
  (\<open>JSONDecodeError\<close>, the specification's \<open>CorruptStateError\<close>), which nothing in
  \<^verbatim>\<open>main\<close> catches, and does not return the fresh document.
\<close>

theorem load_state_cases:
  "(fs path = None \<longrightarrow> load_state json_load fs path = Inr fresh_state)
   \<and> last_notification_id fresh_state = None
   \<and> last_boost_per_user fresh_state = Map.empty
   \<and> boosted_status_ids fresh_state = Map.empty
   \<and> (\<forall>content. fs path = Some content \<and> json_load content = None
        \<longrightarrow> load_state json_load fs path = Inl JSONDecodeError
          \<and> load_state json_load fs path \<noteq> Inr fresh_state)"
  by (simp add: load_state_def fresh_state_def)

theorem load_state_cases_witness:
  "load_state (\<lambda>s. if s = ''{}'' then Some fresh_state else None) Map.empty ''state.json'' = Inr fresh_state
   \<and> load_state (\<lambda>s. if s = ''{}'' then Some fresh_state else None) [''state.json'' \<mapsto> ''{last''] ''state.json''
       = Inl JSONDecodeError"
  using load_state_cases [of Map.empty "''state.json''" "\<lambda>s. if s = ''{}'' then Some fresh_state else None"]
    load_state_cases [of "[''state.json'' \<mapsto> ''{last'']" "''state.json''" "\<lambda>s. if s = ''{}'' then Some fresh_state else None"]
  by simp

lemma tmp_path_neq: "tmp_path path \<noteq> path"
  by (simp add: tmp_path_def)

lemma fold_tmp_only:
  "\<forall>op\<in>set ops. op = OpenW tmp \<or> (\<exists>c. op = WriteChar tmp c) \<Longrightarrow> tmp \<noteq> path
     \<Longrightarrow> fold file_step ops fs path = fs path"
proof (induction ops arbitrary: fs)
  case Nil
  then show ?case by simp
next
  case (Cons op ops)
  have "file_step op fs path = fs path"
    using Cons.prems by (auto split: option.splits)
  with Cons show ?case by simp
qed

lemma fold_writes:
  "fold file_step (map (WriteChar tmp) cs) (fs(tmp \<mapsto> acc)) = fs(tmp \<mapsto> acc @ cs)"
  by (induction cs arbitrary: acc) simp_all

lemma save_state_result:
  "save_state json_dump fs path st = (fs(tmp_path path := None))(path \<mapsto> json_dump st)"
  using fold_writes [of "tmp_path path" "json_dump st" fs "[]"]
  by (simp add: save_state_def save_ops_def run_ops_def Let_def)

lemma save_ops_eq:
  "save_ops json_dump path st
     = (OpenW (tmp_path path) # map (WriteChar (tmp_path path)) (json_dump st))
         @ [Replace (tmp_path path) path]"
  by (simp add: save_ops_def Let_def)

lemma crash_before_replace:
  assumes "k < length (save_ops json_dump path st)"
  shows "run_ops (take k (save_ops json_dump path st)) fs path = fs path"
proof -
  let ?tmp = "tmp_path path"
  let ?pre = "OpenW ?tmp # map (WriteChar ?tmp) (json_dump st)"
  have "k \<le> length ?pre" using assms by (simp add: save_ops_eq)
  then have "take k (save_ops json_dump path st) = take k ?pre"
    unfolding save_ops_eq take_append by simp
  moreover have "\<forall>op\<in>set (take k ?pre). op = OpenW ?tmp \<or> (\<exists>c. op = WriteChar ?tmp c)"
    using set_take_subset [of k ?pre] by auto
  ultimately show ?thesis
    using fold_tmp_only [of "take k ?pre" ?tmp path fs] tmp_path_neq [of path]
    by (simp add: run_ops_def)
qed

text \<open>
  Claim C5. \<open>save_state\<close> writes the serialised document to the temporary path and then
  renames it over the target. A crash after any number of its file operations short of
  the last leaves the target file as it was, so \<open>load_state\<close> returns what it returned
  before the save; once the rename is done the target holds the complete new document.
\<close>

theorem save_state_crash_safe:
  "(\<forall>k < length (save_ops json_dump path st).
      run_ops (take k (save_ops json_dump path st)) fs path = fs path
      \<and> load_state json_load (run_ops (take k (save_ops json_dump path st)) fs) path
          = load_state json_load fs path)
   \<and> save_ops json_dump path st
       = OpenW (tmp_path path) # map (WriteChar (tmp_path path)) (json_dump st)
           @ [Replace (tmp_path path) path]
   \<and> tmp_path path \<noteq> path
   \<and> save_state json_dump fs path st = run_ops (save_ops json_dump path st) fs
   \<and> save_state json_dump fs path st path = Some (json_dump st)"
proof -
  have "\<forall>k < length (save_ops json_dump path st).
      run_ops (take k (save_ops json_dump path st)) fs path = fs path
      \<and> load_state json_load (run_ops (take k (save_ops json_dump path st)) fs) path
          = load_state json_load fs path"
    using crash_before_replace [of _ json_dump path st fs] by (simp add: load_state_def)
  moreover have "save_ops json_dump path st
       = OpenW (tmp_path path) # map (WriteChar (tmp_path path)) (json_dump st)
           @ [Replace (tmp_path path) path]"
    by (simp add: save_ops_eq)
  moreover have "save_state json_dump fs path st path = Some (json_dump st)"
    by (simp add: save_state_result)
  ultimately show ?thesis
    by (simp add: tmp_path_neq save_state_def)
qed

theorem save_state_crash_safe_witness:
  "load_state (\<lambda>s. if s = ''old'' then Some fresh_state else None)
     (run_ops (take 2 (save_ops (\<lambda>st. ''new'') ''state.json'' fresh_state))
        [''state.json'' \<mapsto> ''old'']) ''state.json''
     = Inr fresh_state"
proof -
  have len: "2 < length (save_ops (\<lambda>st. ''new'') ''state.json'' fresh_state)"
    by (simp add: save_ops_def Let_def)
  note safe = save_state_crash_safe [of "\<lambda>st. ''new''" "''state.json''" fresh_state
      "[''state.json'' \<mapsto> ''old'']" "\<lambda>s. if s = ''old'' then Some fresh_state else None",
      THEN conjunct1, rule_format, OF len, THEN conjunct2]
  show ?thesis unfolding safe by (simp add: load_state_def)
qed


section \<open>Properties of the reaction policy\<close>

text \<open>
  Claim C1. A pass of the loop body decides as the specification's \<open>should_act\<close> does,
  whose tests run in the fixed order type, referenced item with an actor, self,
  rate limit, duplicate, the first failing test giving the reason:
  \<open>mastodon.status_reblog\<close> is called exactly when the decision is \<open>Act\<close>; an event
  of another type leaves through the first \<^verbatim>\<open>continue\<close> whatever the tables, the
  clock, the minimum interval and the bot's name are; and a pass that does not act
  changes nothing but the cursor.
\<close>

theorem process_item_decision:
  "decision_of item (snd (process_item self mi now reblog st item)) = should_act item st self now mi
   \<and> (reblog_called (snd (process_item self mi now reblog st item))
        \<longleftrightarrow> should_act item st self now mi = Act)
   \<and> (n_type item \<noteq> ''mention''
        \<longrightarrow> process_item self mi now reblog st item
              = (st\<lparr>last_notification_id := Some (JInt (n_id item))\<rparr>, ContinueType))
   \<and> (should_act item st self now mi \<noteq> Act
        \<longrightarrow> fst (process_item self mi now reblog st item)
              = st\<lparr>last_notification_id := Some (JInt (n_id item))\<rparr>)"
  by (auto simp: process_item_def should_act_def decision_of_def actor_of_def reblog_called_def
      Let_def not_le split: option.splits)

theorem process_item_decision_witness:
  "process_item ''bot'' 3600 1700000000 None fresh_state
     \<lparr>n_id = 5, n_type = ''favourite'', n_status = None\<rparr>
   = (fresh_state\<lparr>last_notification_id := Some (JInt 5)\<rparr>, ContinueType)
   \<and> should_act \<lparr>n_id = 5, n_type = ''favourite'', n_status = None\<rparr> fresh_state ''bot''
        1700000000 3600 = SkipType"
proof -
  let ?item = "\<lparr>n_id = 5, n_type = ''favourite'', n_status = None\<rparr>"
  note d = process_item_decision [of ?item "''bot''" 3600 1700000000 None fresh_state]
  have ty: "n_type ?item \<noteq> ''mention''" by simp
  have p: "process_item ''bot'' 3600 1700000000 None fresh_state ?item
      = (fresh_state\<lparr>last_notification_id := Some (JInt (n_id ?item))\<rparr>, ContinueType)"
    using d [THEN conjunct2, THEN conjunct2, THEN conjunct1, rule_format, OF ty] .
  have "should_act ?item fresh_state ''bot'' 1700000000 3600
      = decision_of ?item (snd (process_item ''bot'' 3600 1700000000 None fresh_state ?item))"
    using d [THEN conjunct1, symmetric] .
  also have "\<dots> = SkipType" unfolding p by (simp add: decision_of_def)
  finally show ?thesis using p by simp
qed

text \<open>
  Claim C8, as amended. An event that reaches the rate-limit test is skipped as
  rate-limited exactly when \<open>now - last_boost_per_user.get(acct, 0) < min_interval\<close>.
  For an actor with no entry the last boost counts as time 0, the epoch: such an actor
  is skipped exactly when \<open>now < min_interval\<close>, and passes whenever
  \<open>min_interval \<le> now\<close>.
\<close>

theorem rate_limit_check:
  assumes "n_type item = ''mention''" and "n_status item = Some s" and "actor_of s = Some acct"
    and "acct \<noteq> self"
  shows "(snd (process_item self mi now reblog st item) = ContinueRateLimit
            \<longleftrightarrow> now - (case last_boost_per_user st acct of None \<Rightarrow> 0 | Some ts \<Rightarrow> ts) < of_int mi)
         \<and> (last_boost_per_user st acct = None
            \<longrightarrow> (snd (process_item self mi now reblog st item) = ContinueRateLimit
                   \<longleftrightarrow> now < of_int mi))"
  using assms
  by (auto simp: process_item_def actor_of_def Let_def split: option.splits if_splits)

theorem rate_limit_check_witness:
  "snd (process_item ''bot'' 3600 1700000000 None fresh_state
          \<lparr>n_id = 1, n_type = ''mention'',
           n_status = Some \<lparr>s_id = 10, s_account = Some \<lparr>a_acct = Some ''alice''\<rparr>\<rparr>\<rparr>)
     \<noteq> ContinueRateLimit"
proof -
  have a: "actor_of \<lparr>s_id = 10, s_account = Some \<lparr>a_acct = Some ''alice''\<rparr>\<rparr> = Some ''alice''"
    by (simp add: actor_of_def)
  have n: "last_boost_per_user fresh_state ''alice'' = None"
    by (simp add: fresh_state_def)
  show ?thesis
    using rate_limit_check [of "\<lparr>n_id = 1, n_type = ''mention'',
           n_status = Some \<lparr>s_id = 10, s_account = Some \<lparr>a_acct = Some ''alice''\<rparr>\<rparr>\<rparr>"
        "\<lparr>s_id = 10, s_account = Some \<lparr>a_acct = Some ''alice''\<rparr>\<rparr>" "''alice''" "''bot''"
        3600 1700000000 None fresh_state] a n
    by simp
qed

text \<open>
  The claim C8 as stated fails: with a minimum interval of 2000000000 seconds and the
  clock at 1700000000, an actor with no entry is skipped as rate-limited.
\<close>

theorem unseen_actor_rate_limited:
  "last_boost_per_user fresh_state ''alice'' = None
   \<and> snd (process_item ''bot'' 2000000000 1700000000 None fresh_state
          \<lparr>n_id = 1, n_type = ''mention'',
           n_status = Some \<lparr>s_id = 10, s_account = Some \<lparr>a_acct = Some ''alice''\<rparr>\<rparr>\<rparr>)
     = ContinueRateLimit"
  by (simp add: process_item_def fresh_state_def Let_def)


section \<open>Properties of the loop over a batch\<close>

lemma process_item_cursor:
  "last_notification_id (fst (process_item self mi now reblog st item)) = Some (JInt (n_id item))"
  by (simp add: process_item_def Let_def split: option.splits)

lemma process_item_Boosted:
  "snd (process_item self mi now reblog st item) = Boosted \<longleftrightarrow>
     reblog = None \<and> should_act item st self now mi = Act"
  by (auto simp: process_item_def should_act_def actor_of_def Let_def not_le split: option.splits)

lemma process_item_tables_Boosted:
  assumes "snd (process_item self mi now reblog st item) = Boosted"
  shows "\<exists>s acct. n_status item = Some s \<and> actor_of s = Some acct
           \<and> boosted_status_ids (fst (process_item self mi now reblog st item))
               = (boosted_status_ids st)(py_str (s_id s) \<mapsto> now)
           \<and> last_boost_per_user (fst (process_item self mi now reblog st item))
               = (last_boost_per_user st)(acct \<mapsto> now)"
  using assms
  by (auto simp: process_item_def actor_of_def Let_def split: option.splits if_splits)

lemma process_item_tables_other:
  assumes "snd (process_item self mi now reblog st item) \<noteq> Boosted"
  shows "boosted_status_ids (fst (process_item self mi now reblog st item)) = boosted_status_ids st
         \<and> last_boost_per_user (fst (process_item self mi now reblog st item)) = last_boost_per_user st"
  using assms
  by (auto simp: process_item_def Let_def split: option.splits if_splits)

lemma process_items_Cons:
  "process_items self mi obs i st (item # items) =
     (fst (process_items self mi obs (Suc i)
             (fst (process_item self mi (fst (obs i)) (snd (obs i)) st item)) items),
      snd (process_item self mi (fst (obs i)) (snd (obs i)) st item)
        # snd (process_items self mi obs (Suc i)
                 (fst (process_item self mi (fst (obs i)) (snd (obs i)) st item)) items))"
  by (simp split: prod.splits)

lemma process_items_length:
  "length (snd (process_items self mi obs i st items)) = length items"
  by (induction items arbitrary: i st) (simp_all only: process_items.simps(1) process_items_Cons snd_conv list.size)

lemma process_items_snoc:
  "process_items self mi obs i st (items @ [item]) =
     (fst (process_item self mi (fst (obs (i + length items))) (snd (obs (i + length items)))
             (fst (process_items self mi obs i st items)) item),
      snd (process_items self mi obs i st items)
        @ [snd (process_item self mi (fst (obs (i + length items))) (snd (obs (i + length items)))
             (fst (process_items self mi obs i st items)) item)])"
proof (induction items arbitrary: i st)
  case Nil
  show ?case by (simp add: process_items_Cons del: process_items.simps(2))
next
  case (Cons a items)
  show ?case
    by (simp add: process_items_Cons Cons.IH del: process_items.simps(2))
qed

lemma process_items_cursor:
  "items \<noteq> [] \<Longrightarrow>
     last_notification_id (fst (process_items self mi obs i st items)) = Some (JInt (n_id (last items)))"
proof (induction items rule: rev_induct)
  case Nil
  then show ?case by simp
next
  case (snoc item items)
  show ?case
    by (simp add: process_items_snoc process_item_cursor)
qed

lemma process_items_take_Suc:
  assumes "k < length items"
  shows "process_items self mi obs i st (take (Suc k) items) =
     (fst (process_item self mi (fst (obs (i + k))) (snd (obs (i + k)))
             (fst (process_items self mi obs i st (take k items))) (items ! k)),
      snd (process_items self mi obs i st (take k items))
        @ [snd (process_item self mi (fst (obs (i + k))) (snd (obs (i + k)))
             (fst (process_items self mi obs i st (take k items))) (items ! k))])"
  using assms process_items_snoc [of self mi obs i st "take k items" "items ! k"]
  by (simp add: take_Suc_conv_app_nth)

lemma process_items_nth:
  "k < length items \<Longrightarrow>
     snd (process_items self mi obs i st items) ! k =
       snd (process_item self mi (fst (obs (i + k))) (snd (obs (i + k)))
              (fst (process_items self mi obs i st (take k items))) (items ! k))"
proof (induction items rule: rev_induct)
  case Nil
  then show ?case by simp
next
  case (snoc item items)
  show ?case
  proof (cases "k < length items")
    case True
    then show ?thesis
      using snoc.IH by (simp add: process_items_snoc nth_append process_items_length)
  next
    case False
    with snoc.prems have "k = length items" by simp
    then show ?thesis
      by (simp add: process_items_snoc nth_append process_items_length)
  qed
qed

lemma process_items_keys:
  assumes "key \<in> dom (boosted_status_ids (fst (process_items self mi obs i st items)))"
  shows "key \<in> dom (boosted_status_ids st)
         \<or> (\<exists>k<length items. \<exists>s. n_status (items ! k) = Some s \<and> key = py_str (s_id s)
               \<and> snd (process_items self mi obs i st items) ! k = Boosted
               \<and> snd (obs (i + k)) = None)"
  using assms
proof (induction items rule: rev_induct)
  case Nil
  then show ?case by simp
next
  case (snoc item items)
  let ?st1 = "fst (process_items self mi obs i st items)"
  let ?bs = "snd (process_items self mi obs i st items)"
  let ?n = "length items"
  let ?r = "process_item self mi (fst (obs (i + ?n))) (snd (obs (i + ?n))) ?st1 item"
  have len: "length ?bs = ?n" by (rule process_items_length)
  have key: "key \<in> dom (boosted_status_ids (fst ?r))"
    using snoc.prems by (simp add: process_items_snoc)
  have old: "key \<in> dom (boosted_status_ids ?st1) \<Longrightarrow> ?case"
  proof -
    assume "key \<in> dom (boosted_status_ids ?st1)"
    from snoc.IH [OF this] show ?case
    proof
      assume "key \<in> dom (boosted_status_ids st)"
      then show ?thesis by simp
    next
      assume "\<exists>k<length items. \<exists>s. n_status (items ! k) = Some s \<and> key = py_str (s_id s)
               \<and> ?bs ! k = Boosted \<and> snd (obs (i + k)) = None"
      then obtain k s where k: "k < length items" "n_status (items ! k) = Some s"
        "key = py_str (s_id s)" "?bs ! k = Boosted" "snd (obs (i + k)) = None"
        by blast
      have "k < length (items @ [item])" using k(1) by simp
      moreover have "n_status ((items @ [item]) ! k) = Some s" using k by (simp add: nth_append)
      moreover have "snd (process_items self mi obs i st (items @ [item])) ! k = Boosted"
        using k len by (simp add: process_items_snoc nth_append)
      ultimately show ?thesis using k(3,5) by blast
    qed
  qed
  show ?case
  proof (cases "snd ?r = Boosted")
    case False
    then have "boosted_status_ids (fst ?r) = boosted_status_ids ?st1"
      using process_item_tables_other by blast
    with key old show ?thesis by simp
  next
    case True
    then obtain s and acct :: string where s: "n_status item = Some s"
      "boosted_status_ids (fst ?r) = (boosted_status_ids ?st1)(py_str (s_id s) \<mapsto> fst (obs (i + ?n)))"
      using process_item_tables_Boosted [of self mi "fst (obs (i + ?n))" "snd (obs (i + ?n))" ?st1 item]
      by blast
    from True have ok: "snd (obs (i + ?n)) = None"
      by (simp add: process_item_Boosted)
    show ?thesis
    proof (cases "key = py_str (s_id s)")
      case False
      with key s(2) have "key \<in> dom (boosted_status_ids ?st1)" by auto
      then show ?thesis by (rule old)
    next
      case k: True
      have "?n < length (items @ [item])" by simp
      moreover have "n_status ((items @ [item]) ! ?n) = Some s" using s(1) by simp
      moreover have "snd (process_items self mi obs i st (items @ [item])) ! ?n = Boosted"
        using True len by (simp add: process_items_snoc nth_append)
      ultimately show ?thesis using k ok by blast
    qed
  qed
qed

text \<open>
  Claim C3. The loop makes one pass for every notification of the batch, each in the
  state the passes before it left, so a failed reblog stops nothing. A pass whose
  reblog call fails does not end as \<open>Boosted\<close> and leaves both tables as they were
  before the pass. Every key of \<open>boosted_status_ids\<close> after the loop was a key before
  it or is the identifier of a status whose pass ended as \<open>Boosted\<close> after a reblog
  call that returned normally.
\<close>

theorem failed_reblog_not_recorded:
  "length (snd (process_items self mi obs i st items)) = length items
   \<and> (\<forall>k<length items.
        snd (process_items self mi obs i st items) ! k
          = snd (process_item self mi (fst (obs (i + k))) (snd (obs (i + k)))
                  (fst (process_items self mi obs i st (take k items))) (items ! k))
        \<and> (snd (obs (i + k)) \<noteq> None \<longrightarrow>
             snd (process_items self mi obs i st items) ! k \<noteq> Boosted
             \<and> last_boost_per_user (fst (process_items self mi obs i st (take (Suc k) items)))
                 = last_boost_per_user (fst (process_items self mi obs i st (take k items)))
             \<and> boosted_status_ids (fst (process_items self mi obs i st (take (Suc k) items)))
                 = boosted_status_ids (fst (process_items self mi obs i st (take k items)))))
   \<and> (\<forall>key\<in>dom (boosted_status_ids (fst (process_items self mi obs i st items))).
        key \<in> dom (boosted_status_ids st)
        \<or> (\<exists>k<length items. \<exists>s. n_status (items ! k) = Some s \<and> key = py_str (s_id s)
              \<and> snd (process_items self mi obs i st items) ! k = Boosted
              \<and> snd (obs (i + k)) = None))"
proof (intro conjI allI impI ballI)
  show "length (snd (process_items self mi obs i st items)) = length items"
    by (rule process_items_length)
next
  fix k assume "k < length items"
  then show "snd (process_items self mi obs i st items) ! k
          = snd (process_item self mi (fst (obs (i + k))) (snd (obs (i + k)))
                  (fst (process_items self mi obs i st (take k items))) (items ! k))"
    by (rule process_items_nth)
next
  fix k assume k: "k < length items" and f: "snd (obs (i + k)) \<noteq> None"
  let ?r = "process_item self mi (fst (obs (i + k))) (snd (obs (i + k)))
                  (fst (process_items self mi obs i st (take k items))) (items ! k)"
  have nb: "snd ?r \<noteq> Boosted" using f by (simp add: process_item_Boosted)
  then show "snd (process_items self mi obs i st items) ! k \<noteq> Boosted"
    using k by (simp add: process_items_nth)
  show "last_boost_per_user (fst (process_items self mi obs i st (take (Suc k) items)))
                 = last_boost_per_user (fst (process_items self mi obs i st (take k items)))"
    using process_item_tables_other [OF nb] k by (simp add: process_items_take_Suc)
  show "boosted_status_ids (fst (process_items self mi obs i st (take (Suc k) items)))
                 = boosted_status_ids (fst (process_items self mi obs i st (take k items)))"
    using process_item_tables_other [OF nb] k by (simp add: process_items_take_Suc)
next
  fix key assume "key \<in> dom (boosted_status_ids (fst (process_items self mi obs i st items)))"
  then show "key \<in> dom (boosted_status_ids st)
        \<or> (\<exists>k<length items. \<exists>s. n_status (items ! k) = Some s \<and> key = py_str (s_id s)
              \<and> snd (process_items self mi obs i st items) ! k = Boosted
              \<and> snd (obs (i + k)) = None)"
    by (rule process_items_keys)
qed

theorem failed_reblog_not_recorded_witness:
  "boosted_status_ids
     (fst (process_items ''bot'' 3600
             (\<lambda>k. if k = 0 then (1700000000, Some MastodonAPIError) else (1700000001, None))
             0 fresh_state
             [\<lparr>n_id = 1, n_type = ''mention'',
               n_status = Some \<lparr>s_id = 10, s_account = Some \<lparr>a_acct = Some ''alice''\<rparr>\<rparr>\<rparr>]))
   = Map.empty"
proof -
  let ?obs = "\<lambda>k::nat. if k = 0 then (1700000000::real, Some MastodonAPIError) else (1700000001, None)"
  let ?a = "\<lparr>n_id = 1, n_type = ''mention'',
               n_status = Some \<lparr>s_id = 10, s_account = Some \<lparr>a_acct = Some ''alice''\<rparr>\<rparr>\<rparr>"
  let ?b = "\<lparr>n_id = 2, n_type = ''mention'',
               n_status = Some \<lparr>s_id = 11, s_account = Some \<lparr>a_acct = Some ''carol''\<rparr>\<rparr>\<rparr>"
  have k: "0 < length [?a, ?b]" by simp
  have f: "snd (?obs (0 + 0)) \<noteq> None" by simp
  note th = failed_reblog_not_recorded [of "''bot''" 3600 ?obs 0 fresh_state "[?a, ?b]",
      THEN conjunct2, THEN conjunct1, rule_format, OF k, THEN conjunct2, rule_format, OF f,
      THEN conjunct2, THEN conjunct2]
  then show ?thesis by (simp add: fresh_state_def)
qed


section \<open>Identifiers as strings and numbers\<close>

lemma digit_cases:
  assumes "d < (10::nat)"
  shows "d = 0 \<or> d = 1 \<or> d = 2 \<or> d = 3 \<or> d = 4 \<or> d = 5 \<or> d = 6 \<or> d = 7 \<or> d = 8 \<or> d = 9"
  using assms by arith

lemma digit_val_digit_char: "d < 10 \<Longrightarrow> digit_val (digit_char d) = Some d"
  using digit_cases [of d] by (auto simp: digit_char_def digit_val_def)

lemma digit_char_not_minus: "d < 10 \<Longrightarrow> digit_char d \<noteq> CHR ''-''"
  using digit_cases [of d] by (auto simp: digit_char_def)

lemma nat_of_digits_append:
  "nat_of_digits acc (xs @ ys) =
     (case nat_of_digits acc xs of None \<Rightarrow> None | Some a \<Rightarrow> nat_of_digits a ys)"
  by (induction xs arbitrary: acc) (auto split: option.splits)

lemma nat_of_digits_digits: "nat_of_digits 0 (digits n) = Some n"
proof (induction n rule: digits.induct)
  case (1 n)
  show ?case
  proof (cases "n < 10")
    case True
    then show ?thesis
      by (subst digits.simps) (simp add: digit_val_digit_char)
  next
    case False
    then show ?thesis
      using "1.IH" by (subst digits.simps) (simp add: nat_of_digits_append digit_val_digit_char)
  qed
qed

lemma digits_head: "\<exists>c cs. digits n = c # cs \<and> c \<noteq> CHR ''-''"
proof (induction n rule: digits.induct)
  case (1 n)
  show ?case
  proof (cases "n < 10")
    case True
    then show ?thesis
      by (subst digits.simps) (simp add: digit_char_not_minus)
  next
    case False
    with "1.IH" obtain c cs where "digits (n div 10) = c # cs" "c \<noteq> CHR ''-''" by blast
    with False show ?thesis
      by (subst digits.simps) simp
  qed
qed

lemma py_int_py_str: "py_int (JStr (py_str n)) = Some n"
proof (cases "n < 0")
  case True
  obtain c cs where "digits (nat (- n)) = c # cs" using digits_head by blast
  with True show ?thesis
    using nat_of_digits_digits [of "nat (- n)"]
    by (simp add: py_str_def int_of_string_def)
next
  case False
  obtain c cs where d: "digits (nat n) = c # cs" "c \<noteq> CHR ''-''" using digits_head by blast
  with False show ?thesis
    using nat_of_digits_digits [of "nat n"]
    by (simp add: py_str_def int_of_string_def)
qed

lemma max_id_of_Max: "max_id_of n ns = Max (n_id ` set (n # ns))"
proof -
  have "max_id_of n ns = Max (set (n_id n # map n_id ns))"
    unfolding max_id_of_def by (rule Max.set_eq_fold [symmetric])
  then show ?thesis by simp
qed

lemma sorted_last_Max:
  assumes "sorted (map f xs)" and "xs \<noteq> []"
  shows "f (last xs) = Max (f ` set xs)"
proof -
  from assms(2) obtain ys y where xs: "xs = ys @ [y]" by (cases xs rule: rev_cases) auto
  with assms(1) have "\<forall>z\<in>set ys. f z \<le> f y" by (simp add: sorted_append)
  then have "Max (f ` set xs) = f y"
    unfolding xs by (intro Max_eqI) auto
  then show ?thesis by (simp add: xs)
qed

lemma sort_key_last_Max:
  assumes "ns \<noteq> []"
  shows "n_id (last (sort_key n_id ns)) = Max (n_id ` set ns)"
proof -
  have "sort_key n_id ns \<noteq> []" using assms by (metis length_sort length_0_conv)
  then have "n_id (last (sort_key n_id ns)) = Max (n_id ` set (sort_key n_id ns))"
    by (intro sorted_last_Max) simp_all
  then show ?thesis by simp
qed

section \<open>Properties of one iteration of the poll loop\<close>

lemma prune_state_cursor:
  "last_notification_id (prune_state st now mi) = last_notification_id st"
  by (simp add: prune_state_def Let_def)

lemma main_iteration_startup:
  assumes "last_notification_id st = None" and "startup_skip_existing cfg"
  shows "main_iteration json_dump cfg w (st, fs) =
     (case notifications w None of
        Inl exc \<Rightarrow> Inl exc
      | Inr [] \<Rightarrow> Inr (prune_state st (clock w) (min_interval cfg), fs, [])
      | Inr (n # ns) \<Rightarrow>
          Inr ((prune_state st (clock w) (min_interval cfg))
                 \<lparr>last_notification_id := Some (JStr (py_str (max_id_of n ns)))\<rparr>,
               save_state json_dump fs (state_file cfg)
                 ((prune_state st (clock w) (min_interval cfg))
                    \<lparr>last_notification_id := Some (JStr (py_str (max_id_of n ns)))\<rparr>),
               []))"
  using assms
  by (simp add: main_iteration_def prune_state_cursor Let_def split: sum.splits list.splits)

lemma main_iteration_fetch:
  assumes "last_notification_id st \<noteq> None \<or> \<not> startup_skip_existing cfg"
  shows "main_iteration json_dump cfg w (st, fs) =
     (case notifications w (last_notification_id st) of
        Inl exc \<Rightarrow> Inr (prune_state st (clock w) (min_interval cfg), fs, [])
      | Inr ns \<Rightarrow>
          if ns \<noteq> []
          then Inr (fst (process_items (bot_acct cfg) (min_interval cfg) (observe w) 0
                           (prune_state st (clock w) (min_interval cfg)) (sort_key n_id ns)),
                    save_state json_dump fs (state_file cfg)
                      (fst (process_items (bot_acct cfg) (min_interval cfg) (observe w) 0
                              (prune_state st (clock w) (min_interval cfg)) (sort_key n_id ns))),
                    snd (process_items (bot_acct cfg) (min_interval cfg) (observe w) 0
                           (prune_state st (clock w) (min_interval cfg)) (sort_key n_id ns)))
          else Inr (prune_state st (clock w) (min_interval cfg), fs, []))"
  using assms
  by (auto simp: main_iteration_def prune_state_cursor Let_def split: sum.splits prod.splits)

text \<open>
  Claim C7. In an iteration that starts with a null cursor and \<open>startup_skip_existing\<close>
  set, when the snapshot fetch returns a non-empty list the cursor becomes the string
  \<open>str\<close> of the greatest identifier in it (which reads back as that number), the
  state with that cursor is saved to the state file, and no pass over the
  notifications is made, so nothing is reblogged; when the snapshot is empty the
  cursor stays null and nothing is saved.
\<close>

theorem startup_skip_cycle:
  assumes "last_notification_id st = None" and "startup_skip_existing cfg"
    and "notifications w None = Inr ns"
  shows "(ns \<noteq> [] \<longrightarrow>
            (let st' = (prune_state st (clock w) (min_interval cfg))
                         \<lparr>last_notification_id := Some (JStr (py_str (Max (n_id ` set ns))))\<rparr>
             in main_iteration json_dump cfg w (st, fs)
                  = Inr (st', save_state json_dump fs (state_file cfg) st', [])
                \<and> save_state json_dump fs (state_file cfg) st' (state_file cfg) = Some (json_dump st')
                \<and> py_int (JStr (py_str (Max (n_id ` set ns)))) = Some (Max (n_id ` set ns))))
         \<and> (ns = [] \<longrightarrow>
               main_iteration json_dump cfg w (st, fs)
                 = Inr (prune_state st (clock w) (min_interval cfg), fs, [])
               \<and> last_notification_id (prune_state st (clock w) (min_interval cfg)) = None)"
proof (cases ns)
  case Nil
  then show ?thesis
    using assms by (simp add: main_iteration_startup prune_state_cursor)
next
  case (Cons n ns')
  then show ?thesis
    using assms
    by (simp add: main_iteration_startup max_id_of_Max save_state_result py_int_py_str Let_def
        del: py_int.simps)
qed

lemma prune_fresh_state: "prune_state fresh_state now mi = fresh_state"
  by (simp add: prune_state_def fresh_state_def keep_recent_def Let_def)

theorem startup_skip_cycle_witness:
  "main_iteration dump_cursor bot_config
     \<lparr>clock = 1700000000,
      notifications = (\<lambda>since_id. Inr [\<lparr>n_id = 7, n_type = ''mention'', n_status = None\<rparr>,
                                      \<lparr>n_id = 42, n_type = ''mention'', n_status = None\<rparr>,
                                      \<lparr>n_id = 13, n_type = ''follow'', n_status = None\<rparr>]),
      observe = calm_passes\<rparr>
     (fresh_state, no_files)
   = Inr (fresh_state\<lparr>last_notification_id := Some (JStr ''42'')\<rparr>,
          save_state dump_cursor no_files ''state.json''
            (fresh_state\<lparr>last_notification_id := Some (JStr ''42'')\<rparr>),
          [])"
proof -
  let ?ns = "[\<lparr>n_id = 7, n_type = ''mention'', n_status = None\<rparr>,
              \<lparr>n_id = 42, n_type = ''mention'', n_status = None\<rparr>,
              \<lparr>n_id = 13, n_type = ''follow'', n_status = None\<rparr>]"
  let ?w = "\<lparr>clock = 1700000000, notifications = (\<lambda>since_id. Inr ?ns), observe = calm_passes\<rparr>"
  have a: "last_notification_id fresh_state = None" by (simp add: fresh_state_def)
  have b: "startup_skip_existing bot_config" by (simp add: bot_config_def)
  have c: "notifications ?w None = Inr ?ns" by simp
  have ne: "?ns \<noteq> []" by simp
  have m: "Max (n_id ` set ?ns) = 42" by simp
  have s: "py_str 42 = ''42''" by (simp add: py_str_def digits.simps digit_char_def)
  note th = startup_skip_cycle [OF a b c, of dump_cursor no_files, THEN conjunct1, rule_format, OF ne]
  from th show ?thesis
    unfolding m s Let_def by (simp add: prune_fresh_state bot_config_def)
qed

lemma process_items_prefix_cursor:
  assumes "k < length items"
  shows "last_notification_id (fst (process_items self mi obs i st (take (Suc k) items)))
           = Some (JInt (n_id (items ! k)))"
  using assms by (simp add: process_items_take_Suc process_item_cursor)

lemma main_iteration_batch:
  assumes "last_notification_id st \<noteq> None \<or> \<not> startup_skip_existing cfg"
    and "notifications w (last_notification_id st) = Inr ns" and "ns \<noteq> []"
  shows "main_iteration json_dump cfg w (st, fs)
           = Inr (fst (process_items (bot_acct cfg) (min_interval cfg) (observe w) 0
                         (prune_state st (clock w) (min_interval cfg)) (sort_key n_id ns)),
                  save_state json_dump fs (state_file cfg)
                    (fst (process_items (bot_acct cfg) (min_interval cfg) (observe w) 0
                            (prune_state st (clock w) (min_interval cfg)) (sort_key n_id ns))),
                  snd (process_items (bot_acct cfg) (min_interval cfg) (observe w) 0
                         (prune_state st (clock w) (min_interval cfg)) (sort_key n_id ns)))"
    and "last_notification_id
           (fst (process_items (bot_acct cfg) (min_interval cfg) (observe w) 0
                   (prune_state st (clock w) (min_interval cfg)) (sort_key n_id ns)))
         = Some (JInt (Max (n_id ` set ns)))"
proof -
  show "main_iteration json_dump cfg w (st, fs)
           = Inr (fst (process_items (bot_acct cfg) (min_interval cfg) (observe w) 0
                         (prune_state st (clock w) (min_interval cfg)) (sort_key n_id ns)),
                  save_state json_dump fs (state_file cfg)
                    (fst (process_items (bot_acct cfg) (min_interval cfg) (observe w) 0
                            (prune_state st (clock w) (min_interval cfg)) (sort_key n_id ns))),
                  snd (process_items (bot_acct cfg) (min_interval cfg) (observe w) 0
                         (prune_state st (clock w) (min_interval cfg)) (sort_key n_id ns)))"
    using main_iteration_fetch [OF assms(1), of json_dump w fs] assms(2,3) by simp
  have ne: "sort_key n_id ns \<noteq> []"
    using assms(3) by (metis length_sort length_0_conv)
  show "last_notification_id
           (fst (process_items (bot_acct cfg) (min_interval cfg) (observe w) 0
                   (prune_state st (clock w) (min_interval cfg)) (sort_key n_id ns)))
         = Some (JInt (Max (n_id ` set ns)))"
    using process_items_cursor [OF ne] by (simp add: sort_key_last_Max [OF assms(3)])
qed

lemma main_iteration_monotone:
  assumes "last_notification_id st = Some cur" and "py_int cur = Some c"
    and "\<forall>ns. notifications w (Some cur) = Inr ns \<longrightarrow> (\<forall>n\<in>set ns. c \<le> n_id n)"
  shows "\<exists>st' fs' bs.
            main_iteration json_dump cfg w (st, fs) = Inr (st', fs', bs)
            \<and> (\<exists>cur' c'. last_notification_id st' = Some cur' \<and> py_int cur' = Some c' \<and> c \<le> c')"
proof -
  have gate: "last_notification_id st \<noteq> None \<or> \<not> startup_skip_existing cfg"
    using assms(1) by simp
  let ?p = "prune_state st (clock w) (min_interval cfg)"
  note run = main_iteration_fetch [OF gate, of json_dump w fs, unfolded assms(1)]
  have same: "last_notification_id ?p = Some cur"
    by (simp add: prune_state_cursor assms(1))
  show ?thesis
  proof (cases "notifications w (Some cur)")
    case (Inl exc)
    then have "main_iteration json_dump cfg w (st, fs) = Inr (?p, fs, [])"
      using run by simp
    with same assms(2) show ?thesis by auto
  next
    case (Inr ns)
    show ?thesis
    proof (cases "ns = []")
      case True
      then have "main_iteration json_dump cfg w (st, fs) = Inr (?p, fs, [])"
        using run Inr by simp
      with same assms(2) show ?thesis by auto
    next
      case False
      have fetched: "notifications w (last_notification_id st) = Inr ns"
        using Inr assms(1) by simp
      note batch = main_iteration_batch(1) [OF gate fetched False, where json_dump = json_dump and fs = fs]
        main_iteration_batch(2) [OF gate fetched False]
      have "Max (n_id ` set ns) \<in> n_id ` set ns"
        using False by (intro Max_in) auto
      then have "c \<le> Max (n_id ` set ns)"
        using assms(3) Inr by auto
      with batch show ?thesis by auto
    qed
  qed
qed

text \<open>
  Claim C2, as amended. An iteration that fetches a non-empty batch runs the loop body
  over the batch sorted by ascending numeric identifier and ends with the cursor at
  the greatest identifier of the batch, whatever the order of the fetch. After the
  pass over the \<open>k\<close>-th notification in sorted order the cursor is that notification's
  identifier, for every outcome of the pass. Once the cursor is non-null an iteration
  does not decrease it provided the event source returns no identifier below the
  cursor it was given as \<^verbatim>\<open>since_id\<close>; the loop itself makes no such comparison.
\<close>

theorem cursor_never_decreases:
  "((last_notification_id st \<noteq> None \<or> \<not> startup_skip_existing cfg)
      \<and> notifications w (last_notification_id st) = Inr ns \<and> ns \<noteq> [] \<longrightarrow>
      main_iteration json_dump cfg w (st, fs)
        = Inr (fst (process_items (bot_acct cfg) (min_interval cfg) (observe w) 0
                      (prune_state st (clock w) (min_interval cfg)) (sort_key n_id ns)),
               save_state json_dump fs (state_file cfg)
                 (fst (process_items (bot_acct cfg) (min_interval cfg) (observe w) 0
                         (prune_state st (clock w) (min_interval cfg)) (sort_key n_id ns))),
               snd (process_items (bot_acct cfg) (min_interval cfg) (observe w) 0
                      (prune_state st (clock w) (min_interval cfg)) (sort_key n_id ns)))
      \<and> last_notification_id
            (fst (process_items (bot_acct cfg) (min_interval cfg) (observe w) 0
                    (prune_state st (clock w) (min_interval cfg)) (sort_key n_id ns)))
          = Some (JInt (Max (n_id ` set ns))))
   \<and> sorted (map n_id (sort_key n_id ns))
   \<and> (\<forall>k<length ns.
         last_notification_id
           (fst (process_items self mi obs i st0 (take (Suc k) (sort_key n_id ns))))
         = Some (JInt (n_id (sort_key n_id ns ! k))))
   \<and> (last_notification_id st = Some cur \<and> py_int cur = Some c
        \<and> (\<forall>ms. notifications w (Some cur) = Inr ms \<longrightarrow> (\<forall>n\<in>set ms. c \<le> n_id n)) \<longrightarrow>
        (\<exists>st' fs' bs.
            main_iteration json_dump cfg w (st, fs) = Inr (st', fs', bs)
            \<and> (\<exists>cur' c'. last_notification_id st' = Some cur' \<and> py_int cur' = Some c'
                  \<and> c \<le> c')))"
proof (intro conjI impI)
  assume a: "(last_notification_id st \<noteq> None \<or> \<not> startup_skip_existing cfg)
      \<and> notifications w (last_notification_id st) = Inr ns \<and> ns \<noteq> []"
  then have g: "last_notification_id st \<noteq> None \<or> \<not> startup_skip_existing cfg"
    and f: "notifications w (last_notification_id st) = Inr ns" and n: "ns \<noteq> []"
    by blast+
  show "main_iteration json_dump cfg w (st, fs)
        = Inr (fst (process_items (bot_acct cfg) (min_interval cfg) (observe w) 0
                      (prune_state st (clock w) (min_interval cfg)) (sort_key n_id ns)),
               save_state json_dump fs (state_file cfg)
                 (fst (process_items (bot_acct cfg) (min_interval cfg) (observe w) 0
                         (prune_state st (clock w) (min_interval cfg)) (sort_key n_id ns))),
               snd (process_items (bot_acct cfg) (min_interval cfg) (observe w) 0
                      (prune_state st (clock w) (min_interval cfg)) (sort_key n_id ns)))"
    by (rule main_iteration_batch(1) [OF g f n])
  show "last_notification_id
            (fst (process_items (bot_acct cfg) (min_interval cfg) (observe w) 0
                    (prune_state st (clock w) (min_interval cfg)) (sort_key n_id ns)))
          = Some (JInt (Max (n_id ` set ns)))"
    by (rule main_iteration_batch(2) [OF g f n])
next
  show "sorted (map n_id (sort_key n_id ns))" by simp
next
  show "\<forall>k<length ns.
         last_notification_id
           (fst (process_items self mi obs i st0 (take (Suc k) (sort_key n_id ns))))
         = Some (JInt (n_id (sort_key n_id ns ! k)))"
    by (simp add: process_items_prefix_cursor)
next
  assume "last_notification_id st = Some cur \<and> py_int cur = Some c
        \<and> (\<forall>ms. notifications w (Some cur) = Inr ms \<longrightarrow> (\<forall>n\<in>set ms. c \<le> n_id n))"
  then show "\<exists>st' fs' bs.
            main_iteration json_dump cfg w (st, fs) = Inr (st', fs', bs)
            \<and> (\<exists>cur' c'. last_notification_id st' = Some cur' \<and> py_int cur' = Some c'
                  \<and> c \<le> c')"
    using main_iteration_monotone [where st = st and cur = cur and c = c and w = w
        and json_dump = json_dump and cfg = cfg and fs = fs] by blast
qed

theorem cursor_never_decreases_witness:
  "last_notification_id
     (fst (process_items ''bot'' 3600 calm_passes 0
             (prune_state (fresh_state\<lparr>last_notification_id := Some (JStr ''1'')\<rparr>) 1700000000 3600)
             (sort_key n_id [\<lparr>n_id = 5, n_type = ''mention'', n_status = None\<rparr>,
                             \<lparr>n_id = 2, n_type = ''follow'', n_status = None\<rparr>,
                             \<lparr>n_id = 9, n_type = ''mention'', n_status = None\<rparr>])))
   = Some (JInt 9)
   \<and> (\<exists>st' fs' bs.
         main_iteration dump_cursor bot_config
           \<lparr>clock = 1700000000,
            notifications = (\<lambda>since_id. Inr [\<lparr>n_id = 5, n_type = ''mention'', n_status = None\<rparr>,
                                            \<lparr>n_id = 2, n_type = ''follow'', n_status = None\<rparr>,
                                            \<lparr>n_id = 9, n_type = ''mention'', n_status = None\<rparr>]),
            observe = calm_passes\<rparr>
           (fresh_state\<lparr>last_notification_id := Some (JStr ''1'')\<rparr>, no_files)
         = Inr (st', fs', bs)
         \<and> (\<exists>cur' c'. last_notification_id st' = Some cur' \<and> py_int cur' = Some c' \<and> 1 \<le> c'))"
proof -
  let ?ns = "[\<lparr>n_id = 5, n_type = ''mention'', n_status = None\<rparr>,
              \<lparr>n_id = 2, n_type = ''follow'', n_status = None\<rparr>,
              \<lparr>n_id = 9, n_type = ''mention'', n_status = None\<rparr>]"
  let ?w = "\<lparr>clock = 1700000000, notifications = (\<lambda>since_id. Inr ?ns), observe = calm_passes\<rparr>"
  let ?st = "fresh_state\<lparr>last_notification_id := Some (JStr ''1'')\<rparr>"
  note th = cursor_never_decreases [where st = ?st and cfg = bot_config and w = ?w and ns = ?ns
      and json_dump = dump_cursor and fs = no_files and self = "''bot''" and mi = 3600
      and obs = calm_passes and i = 0 and ?st0.0 = ?st and cur = "JStr ''1''" and c = 1]
  have a: "(last_notification_id ?st \<noteq> None \<or> \<not> startup_skip_existing bot_config)
      \<and> notifications ?w (last_notification_id ?st) = Inr ?ns \<and> ?ns \<noteq> []"
    by simp
  have d: "last_notification_id ?st = Some (JStr ''1'') \<and> py_int (JStr ''1'') = Some 1
        \<and> (\<forall>ms. notifications ?w (Some (JStr ''1'')) = Inr ms \<longrightarrow> (\<forall>n\<in>set ms. 1 \<le> n_id n))"
    by (auto simp: int_of_string_def digit_val_def)
  have m: "Max (n_id ` set ?ns) = 9" by simp
  from th [THEN conjunct1, rule_format, OF a, THEN conjunct2]
  have first: "last_notification_id
     (fst (process_items ''bot'' 3600 calm_passes 0 (prune_state ?st 1700000000 3600)
             (sort_key n_id ?ns))) = Some (JInt 9)"
    unfolding m by (simp add: bot_config_def)
  from th [THEN conjunct2, THEN conjunct2, THEN conjunct2, rule_format, OF d]
  show ?thesis using first by blast
qed

text \<open>
  The claim C2 as stated fails: the loop assigns the identifier of every fetched
  notification to the cursor without comparing it with the cursor of before. With the
  cursor at 9 and a fetch that returns a notification of identifier 2, the iteration
  ends with the cursor at 2.
\<close>

theorem cursor_goes_back:
  "last_notification_id stale_state = Some (JInt 9)
   \<and> py_int (JInt 9) = Some 9
   \<and> main_iteration dump_cursor bot_config replay_world (stale_state, no_files)
       = Inr ((prune_state stale_state 1700000000 3600)\<lparr>last_notification_id := Some (JInt 2)\<rparr>,
              save_state dump_cursor no_files ''state.json''
                ((prune_state stale_state 1700000000 3600)\<lparr>last_notification_id := Some (JInt 2)\<rparr>),
              [ContinueType])
   \<and> py_int (JInt 2) = Some 2
   \<and> (2::int) < 9"
  by (simp add: main_iteration_def process_item_def prune_state_def Let_def stale_state_def
      bot_config_def replay_world_def fetch_old_def)

text \<open>
  Claim C4, as amended. A network or API fault of the fetch with \<^verbatim>\<open>since_id\<close>, the fetch
  of every iteration that is not a startup skip, is not fatal: the iteration ends at
  its sleep with no pass made and nothing saved, the cursor is unchanged, and the two
  tables are what the pruner at the top of the iteration left of them.
\<close>

theorem fetch_fault_cycle:
  assumes "last_notification_id st \<noteq> None \<or> \<not> startup_skip_existing cfg"
    and "notifications w (last_notification_id st) = Inl exc"
  shows "main_iteration json_dump cfg w (st, fs)
           = Inr (prune_state st (clock w) (min_interval cfg), fs, [])
         \<and> last_notification_id (prune_state st (clock w) (min_interval cfg))
             = last_notification_id st
         \<and> last_boost_per_user (prune_state st (clock w) (min_interval cfg))
             = keep_recent (clock w) (of_int (min_interval cfg * 2)) (last_boost_per_user st)
         \<and> boosted_status_ids (prune_state st (clock w) (min_interval cfg))
             = keep_recent (clock w) 86400 (boosted_status_ids st)"
  using main_iteration_fetch [OF assms(1), of json_dump w fs] assms(2)
  by (simp add: prune_state_def Let_def)

theorem fetch_fault_cycle_witness:
  "main_iteration dump_cursor bot_config offline_world (stale_state, no_files)
     = Inr (prune_state stale_state 1700000000 3600, no_files, [])"
proof -
  have a: "last_notification_id stale_state \<noteq> None \<or> \<not> startup_skip_existing bot_config"
    by (simp add: stale_state_def)
  have b: "notifications offline_world (last_notification_id stale_state) = Inl MastodonNetworkError"
    by (simp add: offline_world_def fetch_fails_def)
  from fetch_fault_cycle [OF a b, of dump_cursor no_files] show ?thesis
    by (simp add: offline_world_def bot_config_def)
qed

text \<open>
  The claim C4 as stated fails twice. The pruner runs before the fetch, so an
  iteration whose fetch fails still drops the expired entry of \<open>alice\<close> from
  \<open>last_boost_per_user\<close>; and the snapshot fetch of a startup skip stands outside any
  \<^verbatim>\<open>try\<close>, so its fault leaves \<^verbatim>\<open>main\<close> as an uncaught exception.
\<close>

theorem fetch_fault_changes_state:
  "main_iteration dump_cursor bot_config offline_world (stale_state, no_files)
     = Inr (prune_state stale_state 1700000000 3600, no_files, [])
   \<and> last_boost_per_user stale_state ''alice'' = Some 1000
   \<and> last_boost_per_user (prune_state stale_state 1700000000 3600) ''alice'' = None
   \<and> main_iteration dump_cursor bot_config offline_world (fresh_state, no_files)
       = Inl MastodonNetworkError"
  by (simp add: main_iteration_def prune_state_def keep_recent_def Let_def stale_state_def
      fresh_state_def bot_config_def offline_world_def fetch_fails_def)


end
